theory Spec2Isabelle
  imports Complex_Main
begin

section \<open>Data model of the projection engine (src/src/App.jsx)\<close>

text \<open>
  JavaScript numbers are modelled as real numbers: the engine is pure arithmetic and the
  properties below are about its control flow and algebra, not about rounding error.
  \<^verbatim>\<open>Math.pow(x, 1 / 12)\<close> is \<open>x powr (1 / 12)\<close>, which agrees with the real twelfth root
  for \<open>0 \<le> x\<close>; \<^verbatim>\<open>Math.pow(x, n)\<close> with a whole month count \<open>n\<close> is \<open>x ^ n\<close>;
  \<^verbatim>\<open>Math.round\<close> is \<open>round\<close> (floor of \<open>x + 1/2\<close>, halves go up in both).
  Where \<open>1 + inflationAnnual\<close> is negative or 0 the code computes with \<^verbatim>\<open>NaN\<close> or divides
  by 0, which real numbers do not have: statements about the deflated balances assume
  \<open>- 1 < inflationAnnual\<close>. The net annual rates are floored at \<open>-0.99\<close>, so their
  twelfth roots are always those of positive numbers.
\<close>

record params =
  currentAge :: real
  retirementAge :: real
  horizonYears :: real
  startAssets :: real
  monthlySave :: real
  preAnnualGross :: real
  postRealAnnualGross :: real
  inflationAnnual :: real
  annualSpendToday :: real
  delayYears :: real
  feeAnnualPre :: real
  feeAnnualPost :: real
  fixedFeeAnnual :: real

text \<open>One entry of \<^verbatim>\<open>rows\<close>: \<^verbatim>\<open>{ age, nominal, real }\<close>.\<close>

record row =
  age :: int
  nominal :: real
  real_bal :: real

record result =
  rows :: "row list"
  endNom :: real
  endReal :: real
  depletedAge :: "int option"
  depletedAgeExact :: "real option"

section \<open>simulate: derived constants (lines 101--110)\<close>

definition months :: "params \<Rightarrow> nat" where
  "months p = nat (max 1 (round (horizonYears p * 12)))"

definition preNet :: "params \<Rightarrow> real" where
  "preNet p = max (- 0.99) (preAnnualGross p - feeAnnualPre p)"

definition postNominal :: "params \<Rightarrow> real" where
  "postNominal p = (1 + postRealAnnualGross p) * (1 + inflationAnnual p) - 1"

definition postNet :: "params \<Rightarrow> real" where
  "postNet p = max (- 0.99) (postNominal p - feeAnnualPost p)"

definition mPre :: "params \<Rightarrow> real" where
  "mPre p = (1 + preNet p) powr (1 / 12) - 1"

definition mPost :: "params \<Rightarrow> real" where
  "mPost p = (1 + postNet p) powr (1 / 12) - 1"

definition mInfl :: "params \<Rightarrow> real" where
  "mInfl p = (1 + inflationAnnual p) powr (1 / 12) - 1"

definition mFix :: "params \<Rightarrow> real" where
  "mFix p = max 0 (fixedFeeAnnual p) / 12"

definition toRet :: "params \<Rightarrow> nat" where
  "toRet p = nat (max 0 (round ((retirementAge p - currentAge p) * 12)))"

definition dly :: "params \<Rightarrow> nat" where
  "dly p = nat (max 0 (round (delayYears p * 12)))"

section \<open>simulate: one pass of the monthly loop (lines 117--133)\<close>

text \<open>The constants \<^verbatim>\<open>r\<close>, \<^verbatim>\<open>c\<close> and \<^verbatim>\<open>sp\<close> of month \<open>m\<close>.\<close>

definition r :: "params \<Rightarrow> nat \<Rightarrow> real" where
  "r p m = (if m \<le> toRet p then mPre p else mPost p)"

definition c :: "params \<Rightarrow> nat \<Rightarrow> real" where
  "c p m = (if m \<le> toRet p \<and> m > dly p then monthlySave p else 0)"

definition sp :: "params \<Rightarrow> nat \<Rightarrow> real" where
  "sp p m =
     (let msr = max 0 (int m - int (toRet p))
      in if msr > 0 then (annualSpendToday p / 12) * (1 + mInfl p) ^ nat msr else 0)"

text \<open>The balance of line 125, before the test for depletion and the clamp.\<close>

definition grow :: "params \<Rightarrow> nat \<Rightarrow> real \<Rightarrow> real" where
  "grow p m bal = bal * (1 + r p m) + c p m - sp p m - mFix p"

text \<open>
  \<^verbatim>\<open>!dep\<close> on a value that is \<^verbatim>\<open>null\<close> or a number: true for \<^verbatim>\<open>null\<close> and for \<open>0\<close>.
\<close>

definition falsy :: "real option \<Rightarrow> bool" where
  "falsy dep = (case dep of None \<Rightarrow> True | Some a \<Rightarrow> a = 0)"

text \<open>The loop state is \<open>(bal, dep, rows)\<close>.\<close>

type_synonym state = "real \<times> real option \<times> row list"

definition step :: "params \<Rightarrow> nat \<Rightarrow> state \<Rightarrow> state" where
  "step p m s =
     (case s of (bal, dep, rws) \<Rightarrow>
        let a = currentAge p + real m / 12;
            bal1 = grow p m bal;
            dep' = (if bal1 \<le> 0 \<and> falsy dep then Some a else dep);
            bal2 = (if bal1 < 0 then 0 else bal1);
            rws' = (if m mod 12 = 0
                    then rws @ [\<lparr>age = \<lfloor>a\<rfloor>, nominal = bal2,
                                 real_bal = bal2 / (1 + mInfl p) ^ m\<rparr>]
                    else rws)
        in (bal2, dep', rws'))"

definition init :: "params \<Rightarrow> state" where
  "init p =
     (let bal = max 0 (startAssets p)
      in (bal, None, [\<lparr>age = \<lfloor>currentAge p\<rfloor>, nominal = bal, real_bal = bal\<rparr>]))"

text \<open>The state after the passes \<open>m = 1, \<dots>, k\<close> of the loop.\<close>

definition run :: "params \<Rightarrow> nat \<Rightarrow> state" where
  "run p k = fold (step p) [1..<Suc k] (init p)"

definition simulate :: "params \<Rightarrow> result" where
  "simulate p =
     (case run p (months p) of (bal, dep, rws) \<Rightarrow>
        \<lparr>rows = rws,
         endNom = bal,
         endReal = (if rws = [] then bal else real_bal (last rws)),
         depletedAge = (if falsy dep then None else map_option floor dep),
         depletedAgeExact = dep\<rparr>)"

section \<open>The sustainable-spend solver (lines 349--368)\<close>

text \<open>
  The body of the memo \<^verbatim>\<open>sustainableSpendToday\<close>, as a function of the parameter object
  \<^verbatim>\<open>p\<close> built at lines 335--348 (every field but \<^verbatim>\<open>annualSpendToday\<close>, which \<^verbatim>\<open>sim\<close>
  supplies) and of \<^verbatim>\<open>lifeExpectancy\<close>. The constants \<^verbatim>\<open>hi = 100000\<close>, \<^verbatim>\<open>max = 5e7\<close> and
  the 34 passes are written where they are used.
\<close>

definition sim :: "params \<Rightarrow> real \<Rightarrow> result" where
  "sim p s = simulate (p\<lparr>annualSpendToday := s\<rparr>)"

definition tol :: real where
  "tol = 0.1"

definition lasts :: "params \<Rightarrow> real \<Rightarrow> real \<Rightarrow> bool" where
  "lasts p lifeExpectancy s =
     (case depletedAgeExact (sim p s) of
        None \<Rightarrow> True
      | Some d \<Rightarrow> d \<ge> lifeExpectancy - tol)"

text \<open>
  Line 351: \<^verbatim>\<open>zero.depletedAge && zero.depletedAge <= lifeExpectancy\<close>; the first operand
  is false for \<^verbatim>\<open>null\<close> and for the number \<open>0\<close>.
\<close>

definition zeroDepleted :: "params \<Rightarrow> real \<Rightarrow> bool" where
  "zeroDepleted p lifeExpectancy =
     (case depletedAge (sim p 0) of
        None \<Rightarrow> False
      | Some a \<Rightarrow> a \<noteq> 0 \<and> real_of_int a \<le> lifeExpectancy)"

text \<open>
  Line 361: \<^verbatim>\<open>while (lasts(hi) && hi < max) hi *= 2\<close>. For an arbitrary start the loop
  need not stop (a feasible \<open>hi \<le> 0\<close> is never changed by doubling), so not returning
  is the value \<open>None\<close>.
\<close>

partial_function (option) bracket :: "(real \<Rightarrow> bool) \<Rightarrow> real \<Rightarrow> real \<Rightarrow> real option" where
  "bracket f mx hi = (if f hi \<and> hi < mx then bracket f mx (hi * 2) else Some hi)"

text \<open>Lines 363--367: the bisection, \<open>n\<close> passes left, on the pair \<open>(lo, hi)\<close>.\<close>

fun bisect :: "(real \<Rightarrow> bool) \<Rightarrow> nat \<Rightarrow> real \<times> real \<Rightarrow> real \<times> real" where
  "bisect f 0 (lo, hi) = (lo, hi)"
| "bisect f (Suc n) (lo, hi) =
     (let m = (lo + hi) / 2
      in if f m then bisect f n (m, hi) else bisect f n (lo, m))"

definition findSustainableSpend :: "params \<Rightarrow> real \<Rightarrow> real option" where
  "findSustainableSpend p lifeExpectancy =
     (if zeroDepleted p lifeExpectancy then Some 0
      else case bracket (lasts p lifeExpectancy) 50000000 100000 of
             None \<Rightarrow> None
           | Some hi \<Rightarrow>
               if hi \<ge> 50000000 then Some hi
               else Some (real_of_int
                      (round (fst (bisect (lasts p lifeExpectancy) 34 (0, hi))))))"

section \<open>Observing the loop month by month\<close>

text \<open>
  The components of the loop state after \<open>k\<close> passes, the age of month \<open>m\<close>
  (\<^verbatim>\<open>currentAge + m / 12\<close>, line 118), and the balance of month \<open>m\<close> as line 125
  computes it, before the clamp of line 127.
\<close>

definition balAt :: "params \<Rightarrow> nat \<Rightarrow> real" where
  "balAt p k = fst (run p k)"

definition depAt :: "params \<Rightarrow> nat \<Rightarrow> real option" where
  "depAt p k = fst (snd (run p k))"

definition rowsAt :: "params \<Rightarrow> nat \<Rightarrow> row list" where
  "rowsAt p k = snd (snd (run p k))"

definition ageAt :: "params \<Rightarrow> nat \<Rightarrow> real" where
  "ageAt p m = currentAge p + real m / 12"

definition rawBal :: "params \<Rightarrow> nat \<Rightarrow> real" where
  "rawBal p m = grow p m (balAt p (m - 1))"

section \<open>Concrete scenarios\<close>

text \<open>
  \<open>withSpend\<close> is the scenario of that name in \<^verbatim>\<open>runTests\<close> at the end of App.jsx.
  \<open>newborn\<close> is a saver of age 0 with neither assets nor contributions, who retires
  at 60 and plans to 90.
\<close>

definition withSpend :: params where
  "withSpend = \<lparr>currentAge = 40, retirementAge = 60, horizonYears = 50, startAssets = 200000,
     monthlySave = 1500, preAnnualGross = 0.08, postRealAnnualGross = 0.025,
     inflationAnnual = 0.02, annualSpendToday = 60000, delayYears = 0, feeAnnualPre = 0.002,
     feeAnnualPost = 0.002, fixedFeeAnnual = 0\<rparr>"


text \<open>
  Two years with no growth, no contributions and no fees: twelve months to retirement,
  then twelve months that each withdraw \<open>s / 12\<close> from the starting assets \<open>A\<close>. The
  life expectancy that goes with it is 42 (\<open>horizonYears = max(1, 42 - 40)\<close>).
\<close>

definition flat :: "real \<Rightarrow> params" where
  "flat A = \<lparr>currentAge = 40, retirementAge = 41, horizonYears = 2, startAssets = A,
     monthlySave = 0, preAnnualGross = 0, postRealAnnualGross = 0, inflationAnnual = 0,
     annualSpendToday = 0, delayYears = 0, feeAnnualPre = 0, feeAnnualPost = 0,
     fixedFeeAnnual = 0\<rparr>"


definition midYear :: params where
  "midYear = \<lparr>currentAge = 40.5, retirementAge = 41.5, horizonYears = 2.5, startAssets = 1000,
     monthlySave = 100, preAnnualGross = 0, postRealAnnualGross = 0, inflationAnnual = 0,
     annualSpendToday = 1200, delayYears = 0, feeAnnualPre = 0, feeAnnualPost = 0,
     fixedFeeAnnual = 0\<rparr>"

definition feeOnly :: params where
  "feeOnly = \<lparr>currentAge = 40.5, retirementAge = 41.5, horizonYears = 2.5, startAssets = 10000,
     monthlySave = 0, preAnnualGross = 0.02, postRealAnnualGross = 0, inflationAnnual = 0.02,
     annualSpendToday = 0, delayYears = 0, feeAnnualPre = 0.02, feeAnnualPost = 0.02,
     fixedFeeAnnual = 1200\<rparr>"

section \<open>The loop, one month at a time\<close>

lemma run_0: "run p 0 = init p"
  by (simp add: run_def)

lemma run_Suc: "run p (Suc k) = step p (Suc k) (run p k)"
  by (simp add: run_def)

lemma run_split: "run p k = (balAt p k, depAt p k, rowsAt p k)"
  by (simp add: balAt_def depAt_def rowsAt_def)

lemma balAt_0: "balAt p 0 = max 0 (startAssets p)"
  by (simp add: balAt_def run_0 init_def Let_def)

lemma depAt_0: "depAt p 0 = None"
  by (simp add: depAt_def run_0 init_def Let_def)

lemma rowsAt_0:
  "rowsAt p 0 = [\<lparr>age = \<lfloor>currentAge p\<rfloor>, nominal = max 0 (startAssets p),
                  real_bal = max 0 (startAssets p)\<rparr>]"
  by (simp add: rowsAt_def run_0 init_def Let_def)

lemma balAt_Suc: "balAt p (Suc k) = max 0 (grow p (Suc k) (balAt p k))"
  by (simp add: balAt_def run_Suc step_def Let_def split: prod.splits)

lemma depAt_Suc:
  "depAt p (Suc k) =
     (if grow p (Suc k) (balAt p k) \<le> 0 \<and> falsy (depAt p k)
      then Some (ageAt p (Suc k)) else depAt p k)"
  by (simp add: balAt_def depAt_def ageAt_def run_Suc step_def Let_def split: prod.splits)

lemma rowsAt_Suc:
  "rowsAt p (Suc k) =
     (if Suc k mod 12 = 0
      then rowsAt p k @ [\<lparr>age = \<lfloor>ageAt p (Suc k)\<rfloor>, nominal = balAt p (Suc k),
                           real_bal = balAt p (Suc k) / (1 + mInfl p) ^ Suc k\<rparr>]
      else rowsAt p k)"
  by (simp add: balAt_def rowsAt_def ageAt_def run_Suc step_def Let_def split: prod.splits)

lemma simulate_fields:
  "rows (simulate p) = rowsAt p (months p)"
  "endNom (simulate p) = balAt p (months p)"
  "endReal (simulate p) =
     (if rowsAt p (months p) = [] then balAt p (months p)
      else real_bal (last (rowsAt p (months p))))"
  "depletedAgeExact (simulate p) = depAt p (months p)"
  "depletedAge (simulate p) =
     (if falsy (depAt p (months p)) then None else map_option floor (depAt p (months p)))"
  by (simp_all add: simulate_def run_split)

lemma balAt_nonneg: "0 \<le> balAt p k"
  by (cases k) (simp_all add: balAt_0 balAt_Suc)

lemma rowsAt_nonempty: "rowsAt p k \<noteq> []"
  by (induction k) (simp_all add: rowsAt_0 rowsAt_Suc)

lemma length_rowsAt: "length (rowsAt p k) = Suc (k div 12)"
proof (induction k)
  case 0
  show ?case by (simp add: rowsAt_0)
next
  case (Suc k)
  show ?case
  proof (cases "Suc k mod 12 = 0")
    case True
    then have "Suc k div 12 = Suc (k div 12)"
      by (simp add: div_Suc)
    with True Suc show ?thesis by (simp add: rowsAt_Suc)
  next
    case False
    then have "Suc k div 12 = k div 12"
      by (simp add: div_Suc)
    with False Suc show ?thesis by (simp add: rowsAt_Suc)
  qed
qed


lemma months_ge_12: "1 \<le> horizonYears p \<Longrightarrow> 12 \<le> months p"
proof -
  assume "1 \<le> horizonYears p"
  then have "(12::real) \<le> horizonYears p * 12" by simp
  then have "round (12::real) \<le> round (horizonYears p * 12)" by (rule round_mono)
  then show ?thesis by (simp add: months_def)
qed

section \<open>Rates and the deflator\<close>

lemma months_pos: "1 \<le> months p"
  by (simp add: months_def)

lemma one_plus_mInfl: "1 + mInfl p = (1 + inflationAnnual p) powr (1 / 12)"
  by (simp add: mInfl_def)

lemma one_plus_mInfl_nonneg: "0 \<le> 1 + mInfl p"
  by (simp add: one_plus_mInfl)

lemma one_plus_mInfl_pos: "- 1 < inflationAnnual p \<Longrightarrow> 0 < 1 + mInfl p"
  by (simp add: one_plus_mInfl)

lemma twelfth_root_power: "0 < x \<Longrightarrow> (x powr (1 / 12)) ^ 12 = (x::real)"
proof -
  assume x: "0 < x"
  have "(x powr (1 / 12)) ^ 12 = (x powr (1 / 12)) powr real (12::nat)"
    using x by (simp add: powr_realpow)
  also have "\<dots> = x powr 1"
    by (simp add: powr_powr)
  finally show ?thesis using x by simp
qed

section \<open>Rows, depletion and the final real balance\<close>

lemma rowsAt_rows_nonneg:
  assumes "rw \<in> set (rowsAt p k)"
  shows "0 \<le> nominal rw \<and> 0 \<le> real_bal rw"
  using assms
proof (induction k)
  case 0
  then show ?case by (simp add: rowsAt_0)
next
  case (Suc k)
  have "0 \<le> balAt p (Suc k) / (1 + mInfl p) ^ Suc k"
    using balAt_nonneg [of p "Suc k"] one_plus_mInfl_nonneg [of p]
    by (intro divide_nonneg_nonneg zero_le_power)
  with Suc balAt_nonneg [of p "Suc k"] show ?case
    by (auto simp: rowsAt_Suc split: if_splits)
qed

lemma find_snoc:
  "List.find P (xs @ [x]) =
     (case List.find P xs of None \<Rightarrow> (if P x then Some x else None) | Some y \<Rightarrow> Some y)"
  by (induction xs) simp_all

lemma ageAt_pos: "0 \<le> currentAge p \<Longrightarrow> 1 \<le> m \<Longrightarrow> 0 < ageAt p m"
proof -
  assume a: "0 \<le> currentAge p" and m: "1 \<le> m"
  have "0 < real m / 12" using m by simp
  with a show ?thesis unfolding ageAt_def by linarith
qed

lemma find_months_ge1:
  "List.find P [1..<Suc k] = Some m \<Longrightarrow> 1 \<le> m"
  by (auto simp: find_Some_iff dest!: nth_mem)

lemma depAt_find:
  assumes "0 \<le> currentAge p"
  shows "depAt p k = map_option (ageAt p) (List.find (\<lambda>m. rawBal p m \<le> 0) [1..<Suc k])"
proof (induction k)
  case 0
  show ?case by (simp add: depAt_0)
next
  case (Suc k)
  let ?f = "List.find (\<lambda>m. rawBal p m \<le> 0) [1..<Suc k]"
  have upt: "[1..<Suc (Suc k)] = [1..<Suc k] @ [Suc k]"
    by simp
  have raw: "grow p (Suc k) (balAt p k) = rawBal p (Suc k)"
    by (simp add: rawBal_def)
  show ?case
  proof (cases ?f)
    case None
    with Suc have "depAt p k = None" by simp
    then show ?thesis
      unfolding upt find_snoc None
      by (simp add: depAt_Suc raw falsy_def)
  next
    case (Some m)
    then have "1 \<le> m" by (rule find_months_ge1)
    then have "ageAt p m \<noteq> 0" using ageAt_pos [OF assms, of m] by simp
    moreover from Suc Some have "depAt p k = Some (ageAt p m)" by simp
    ultimately show ?thesis
      unfolding upt find_snoc Some
      by (simp add: depAt_Suc falsy_def)
  qed
qed

lemma endReal_last: "endReal (simulate p) = real_bal (last (rows (simulate p)))"
  by (simp add: simulate_fields rowsAt_nonempty)

lemma one_plus_mPre: "(1 + mPre p) ^ 12 = 1 + preNet p"
proof -
  have "0 < 1 + preNet p" by (simp add: preNet_def max_def)
  then show ?thesis by (simp add: mPre_def twelfth_root_power)
qed

lemma one_plus_mPost: "(1 + mPost p) ^ 12 = 1 + postNet p"
proof -
  have "0 < 1 + postNet p" by (simp add: postNet_def max_def)
  then show ?thesis by (simp add: mPost_def twelfth_root_power)
qed

lemma one_plus_mInfl12: "- 1 < inflationAnnual p \<Longrightarrow> (1 + mInfl p) ^ 12 = 1 + inflationAnnual p"
  by (simp add: mInfl_def twelfth_root_power)

lemma sp_eq:
  "sp p m = (if toRet p < m
             then annualSpendToday p / 12 * (1 + mInfl p) ^ (m - toRet p) else 0)"
proof (cases "toRet p < m")
  case True
  then have "max 0 (int m - int (toRet p)) = int (m - toRet p)" by simp
  with True show ?thesis by (simp add: sp_def Let_def del: of_nat_diff)
next
  case False
  then show ?thesis by (simp add: sp_def Let_def)
qed

section \<open>Geometric against simple monthly rates\<close>

lemma Bernoulli_strict:
  fixes x :: real
  assumes "- 1 < x" and "x \<noteq> 0"
  shows "1 + real (Suc (Suc n)) * x < (1 + x) ^ Suc (Suc n)"
proof (induction n)
  case 0
  have "0 < x * x" using assms(2) by (auto simp: zero_less_mult_iff)
  then show ?case by (simp add: power2_eq_square algebra_simps)
next
  case (Suc n)
  have pos: "0 < 1 + x" using assms(1) by simp
  have "1 + real (Suc (Suc (Suc n))) * x \<le> (1 + x) * (1 + real (Suc (Suc n)) * x)"
  proof -
    have "(1 + x) * (1 + real (Suc (Suc n)) * x) - (1 + real (Suc (Suc (Suc n))) * x)
          = real (Suc (Suc n)) * (x * x)"
      by (simp add: algebra_simps)
    moreover have "0 \<le> real (Suc (Suc n)) * (x * x)" by simp
    ultimately show ?thesis by linarith
  qed
  also have "\<dots> < (1 + x) * (1 + x) ^ Suc (Suc n)"
    using Suc pos by (simp only: mult_less_cancel_left_pos)
  finally show ?case by simp
qed

lemma monthly_below_simple:
  fixes a m :: real
  assumes "- 1 < a" and "a \<noteq> 0" and "0 \<le> 1 + m" and "(1 + m) ^ 12 = 1 + a"
  shows "m < a / 12"
proof -
  have "- 1 < a / 12" using assms(1) by simp
  moreover have "a / 12 \<noteq> 0" using assms(2) by simp
  ultimately have "1 + real (Suc (Suc 10)) * (a / 12) < (1 + a / 12) ^ Suc (Suc 10)"
    by (rule Bernoulli_strict)
  then have "(1 + m) ^ 12 < (1 + a / 12) ^ 12"
    using assms(4) by (simp add: eval_nat_numeral)
  then have "1 + m < 1 + a / 12"
    using \<open>- 1 < a / 12\<close> by (intro power_less_imp_less_base [of "1 + m" 12]) simp_all
  then show ?thesis by simp
qed

lemma preNet_gt: "- 1 < preNet p"
  by (simp add: preNet_def max_def)

lemma postNet_gt: "- 1 < postNet p"
  by (simp add: postNet_def max_def)

section \<open>The doubling loop and the bisection\<close>

lemma bracket_stop: "\<not> (f hi \<and> hi < mx) \<Longrightarrow> bracket f mx hi = Some hi"
  by (subst bracket.simps) auto

lemma bracket_go: "f hi \<Longrightarrow> hi < mx \<Longrightarrow> bracket f mx hi = bracket f mx (hi * 2)"
  by (subst bracket.simps) simp

lemma bracket_total:
  "0 < hi \<Longrightarrow> mx \<le> hi * 2 ^ n \<Longrightarrow>
     \<exists>j\<le>n. bracket f mx hi = Some (hi * 2 ^ j)
          \<and> (\<forall>i<j. f (hi * 2 ^ i) \<and> hi * 2 ^ i < mx)
          \<and> \<not> (f (hi * 2 ^ j) \<and> hi * 2 ^ j < mx)"
proof (induction n arbitrary: hi)
  case 0
  then have "\<not> (f hi \<and> hi < mx)" by simp
  then have "bracket f mx hi = Some hi" by (rule bracket_stop)
  with \<open>\<not> (f hi \<and> hi < mx)\<close> show ?case by simp
next
  case (Suc n)
  show ?case
  proof (cases "f hi \<and> hi < mx")
    case False
    then have "bracket f mx hi = Some hi" by (rule bracket_stop)
    with False have "bracket f mx hi = Some (hi * 2 ^ 0)
          \<and> (\<forall>i<0. f (hi * 2 ^ i) \<and> hi * 2 ^ i < mx)
          \<and> \<not> (f (hi * 2 ^ 0) \<and> hi * 2 ^ 0 < mx)" by simp
    then show ?thesis by blast
  next
    case True
    have "0 < hi * 2" using Suc.prems(1) by simp
    moreover have "mx \<le> hi * 2 * 2 ^ n" using Suc.prems(2) by (simp add: mult.assoc)
    ultimately obtain j where j: "j \<le> n" "bracket f mx (hi * 2) = Some (hi * 2 * 2 ^ j)"
        "\<forall>i<j. f (hi * 2 * 2 ^ i) \<and> hi * 2 * 2 ^ i < mx"
        "\<not> (f (hi * 2 * 2 ^ j) \<and> hi * 2 * 2 ^ j < mx)"
      using Suc.IH [of "hi * 2"] by blast
    have shift: "hi * 2 * 2 ^ i = hi * 2 ^ Suc i" for i
      by simp
    have "bracket f mx hi = Some (hi * 2 ^ Suc j)"
      using True j(2) by (simp add: bracket_go)
    moreover have "\<forall>i<Suc j. f (hi * 2 ^ i) \<and> hi * 2 ^ i < mx"
    proof (intro allI impI)
      fix i assume "i < Suc j"
      show "f (hi * 2 ^ i) \<and> hi * 2 ^ i < mx"
      proof (cases i)
        case 0
        with True show ?thesis by simp
      next
        case (Suc i')
        with \<open>i < Suc j\<close> have "i' < j" by simp
        with j(3) have "f (hi * 2 * 2 ^ i') \<and> hi * 2 * 2 ^ i' < mx" by blast
        then show ?thesis unfolding shift Suc .
      qed
    qed
    moreover have "\<not> (f (hi * 2 ^ Suc j) \<and> hi * 2 ^ Suc j < mx)"
      using j(4) unfolding shift .
    moreover have "Suc j \<le> Suc n" using j(1) by simp
    ultimately show ?thesis by blast
  qed
qed

lemma pow2_le_256: "j \<le> 8 \<Longrightarrow> (2::real) ^ j \<le> 256"
proof -
  assume "j \<le> 8"
  then have "(2::real) ^ j \<le> 2 ^ 8" by (intro power_increasing) simp_all
  then show ?thesis by simp
qed

lemma bracket_start:
  "\<exists>j\<le>9. bracket f 50000000 100000 = Some (100000 * 2 ^ j)
        \<and> (\<forall>i<j. f (100000 * 2 ^ i))
        \<and> (j < 9 \<longrightarrow> \<not> f (100000 * 2 ^ j))"
proof -
  have "(0::real) < 100000" and "(50000000::real) \<le> 100000 * 2 ^ 9" by simp_all
  then obtain j where j: "j \<le> 9" "bracket f 50000000 100000 = Some (100000 * 2 ^ j)"
      "\<forall>i<j. f (100000 * 2 ^ i) \<and> (100000::real) * 2 ^ i < 50000000"
      "\<not> (f (100000 * 2 ^ j) \<and> (100000::real) * 2 ^ j < 50000000)"
    using bracket_total [of 100000 50000000 9 f] by blast
  have "j < 9 \<longrightarrow> \<not> f (100000 * 2 ^ j)"
  proof
    assume "j < 9"
    then have "(2::real) ^ j \<le> 256" by (intro pow2_le_256) simp
    then have "(100000::real) * 2 ^ j < 50000000" by simp
    with j(4) show "\<not> f (100000 * 2 ^ j)" by blast
  qed
  with j show ?thesis by blast
qed

lemma bisect_inv:
  "lo < hi \<Longrightarrow> \<not> f hi \<Longrightarrow> bisect f n (lo, hi) = (lo', hi') \<Longrightarrow>
     \<not> f hi' \<and> (lo' = lo \<or> f lo') \<and> lo \<le> lo' \<and> lo' < hi' \<and> hi' \<le> hi
     \<and> hi' - lo' = (hi - lo) / 2 ^ n"
proof (induction n arbitrary: lo hi)
  case 0
  then show ?case by simp
next
  case (Suc n)
  let ?m = "(lo + hi) / 2"
  have m: "lo < ?m" "?m < hi" using Suc.prems(1) by simp_all
  have half: "(hi - ?m) / 2 ^ n = (hi - lo) / 2 ^ Suc n" "(?m - lo) / 2 ^ n = (hi - lo) / 2 ^ Suc n"
    by (simp_all add: field_simps)
  show ?case
  proof (cases "f ?m")
    case True
    with Suc.prems(3) have "bisect f n (?m, hi) = (lo', hi')" by (simp add: Let_def)
    from Suc.IH [OF m(2) Suc.prems(2) this]
    have ih: "\<not> f hi'" "lo' = ?m \<or> f lo'" "?m \<le> lo'" "lo' < hi'" "hi' \<le> hi"
        "hi' - lo' = (hi - ?m) / 2 ^ n"
      by blast+
    have "f lo'"
    proof (cases "lo' = ?m")
      case True
      with \<open>f ?m\<close> show ?thesis by (simp only:)
    next
      case False
      with ih(2) show ?thesis by blast
    qed
    moreover from ih(3) m(1) have "lo \<le> lo'" by linarith
    ultimately show ?thesis using ih(1,4,5,6) half(1) by simp
  next
    case False
    with Suc.prems(3) have "bisect f n (lo, ?m) = (lo', hi')" by (simp add: Let_def)
    from Suc.IH [OF m(1) False this]
    have ih: "\<not> f hi'" "lo' = lo \<or> f lo'" "lo \<le> lo'" "lo' < hi'" "hi' \<le> ?m"
        "hi' - lo' = (?m - lo) / 2 ^ n"
      by blast+
    from ih(5) m(2) have "hi' \<le> hi" by linarith
    then show ?thesis using ih(1,2,3,4,6) half(2) by simp
  qed
qed

lemma bisect_never:
  "\<forall>s. lo \<le> s \<longrightarrow> \<not> f s \<Longrightarrow> lo \<le> hi \<Longrightarrow> fst (bisect f n (lo, hi)) = lo"
proof (induction n arbitrary: hi)
  case 0
  show ?case by simp
next
  case (Suc n)
  have "lo \<le> (lo + hi) / 2" using Suc.prems(2) by simp
  with Suc show ?case by (simp add: Let_def)
qed

section \<open>The three exits of the solver\<close>

lemma fss_zero: "zeroDepleted p le \<Longrightarrow> findSustainableSpend p le = Some 0"
  by (simp add: findSustainableSpend_def)

lemma fss_ceiling:
  "\<not> zeroDepleted p le \<Longrightarrow> bracket (lasts p le) 50000000 100000 = Some hi \<Longrightarrow>
     50000000 \<le> hi \<Longrightarrow> findSustainableSpend p le = Some hi"
  by (simp add: findSustainableSpend_def)

lemma fss_bisect:
  "\<not> zeroDepleted p le \<Longrightarrow> bracket (lasts p le) 50000000 100000 = Some hi \<Longrightarrow>
     hi < 50000000 \<Longrightarrow>
     findSustainableSpend p le =
       Some (real_of_int (round (fst (bisect (lasts p le) 34 (0, hi)))))"
  by (simp add: findSustainableSpend_def)

text \<open>What the solver does when the doubling stops below the ceiling.\<close>

lemma fss_below:
  assumes nz: "\<not> zeroDepleted p le"
    and br: "bracket (lasts p le) 50000000 100000 = Some hi"
    and hi: "0 < hi" "hi < 50000000"
    and nf: "\<not> lasts p le hi"
  shows "\<exists>lo' hi'. bisect (lasts p le) 34 (0, hi) = (lo', hi')
          \<and> findSustainableSpend p le = Some (real_of_int (round lo'))
          \<and> \<not> lasts p le hi' \<and> (lo' = 0 \<or> lasts p le lo')
          \<and> 0 \<le> lo' \<and> lo' < hi' \<and> hi' \<le> hi \<and> hi' - lo' = hi / 2 ^ 34"
proof -
  obtain lo' hi' where b: "bisect (lasts p le) 34 (0, hi) = (lo', hi')"
    by (cases "bisect (lasts p le) 34 (0, hi)") blast
  from bisect_inv [OF hi(1) nf b]
  have inv: "\<not> lasts p le hi'" "lo' = 0 \<or> lasts p le lo'" "0 \<le> lo'" "lo' < hi'" "hi' \<le> hi"
      "hi' - lo' = hi / 2 ^ 34"
    by simp_all
  have "findSustainableSpend p le = Some (real_of_int (round lo'))"
    using fss_bisect [OF nz br hi(2)] b by simp
  with b inv show ?thesis by blast
qed

lemma round_between:
  fixes x :: real
  assumes "0 \<le> x" and "x \<le> real_of_int n"
  shows "0 \<le> real_of_int (round x) \<and> real_of_int (round x) \<le> real_of_int n"
proof -
  have "round (0::real) \<le> round x" using assms(1) by (rule round_mono)
  moreover have "round x \<le> round (real_of_int n)" using assms(2) by (rule round_mono)
  ultimately show ?thesis by simp
qed

lemma start_times_pow: "(100000::real) * 2 ^ j = real_of_int (100000 * 2 ^ j)"
  by simp

section \<open>Scenarios that deplete in the first month\<close>

lemmas consts_defs = months_def preNet_def postNominal_def postNet_def mPre_def mPost_def
  mInfl_def mFix_def toRet_def dly_def

lemmas loop_defs = simulate_def run_def init_def step_def grow_def r_def c_def sp_def
  falsy_def Let_def upt_rec

lemma sp_nonneg: "0 \<le> annualSpendToday p \<Longrightarrow> 0 \<le> sp p m"
  using one_plus_mInfl_nonneg [of p] by (simp add: sp_eq)

lemma mFix_nonneg: "0 \<le> mFix p"
  by (simp add: mFix_def)

lemma depAt_keep: "depAt p k = Some a \<Longrightarrow> a \<noteq> 0 \<Longrightarrow> depAt p (k + n) = Some a"
  by (induction n) (simp_all add: depAt_Suc falsy_def)

lemma first_month_depleted:
  assumes "startAssets p \<le> 0" and "c p 1 \<le> 0" and "0 \<le> sp p 1"
  shows "depAt p 1 = Some (ageAt p 1)"
proof -
  have "balAt p 0 = 0" using assms(1) by (simp add: balAt_0)
  then have "grow p (Suc 0) (balAt p 0) \<le> 0"
    using assms(2,3) mFix_nonneg [of p] by (simp add: grow_def)
  then show ?thesis
    using depAt_Suc [of p 0] by (simp add: depAt_0 falsy_def)
qed

lemma immediate_depletion:
  assumes "startAssets p \<le> 0" and "monthlySave p = 0 \<or> 1 \<le> dly p"
    and "0 \<le> annualSpendToday p" and "0 \<le> currentAge p"
  shows "depletedAgeExact (simulate p) = Some (currentAge p + 1 / 12)"
proof -
  have "c p 1 \<le> 0" using assms(2) by (auto simp: c_def)
  moreover have "0 \<le> sp p 1" using assms(3) by (rule sp_nonneg)
  ultimately have d1: "depAt p 1 = Some (ageAt p 1)"
    using assms(1) by (intro first_month_depleted)
  have "ageAt p 1 \<noteq> 0" using ageAt_pos [OF assms(4), of 1] by simp
  with d1 have "depAt p (1 + (months p - 1)) = Some (ageAt p 1)"
    by (rule depAt_keep)
  moreover have "1 + (months p - 1) = months p" using months_pos [of p] by simp
  ultimately show ?thesis by (simp add: simulate_fields ageAt_def)
qed

lemma immediate_depletion_sim:
  assumes "startAssets p \<le> 0" and "monthlySave p = 0 \<or> 1 \<le> dly p"
    and "0 \<le> s" and "0 \<le> currentAge p"
  shows "depletedAgeExact (sim p s) = Some (currentAge p + 1 / 12)"
  using immediate_depletion [of "p\<lparr>annualSpendToday := s\<rparr>"] assms
  by (simp add: sim_def dly_def)

lemma depletedAge_of_exact:
  "depletedAgeExact (simulate p) = Some a \<Longrightarrow>
     depletedAge (simulate p) = (if a = 0 then None else Some \<lfloor>a\<rfloor>)"
  by (simp add: simulate_fields falsy_def)

lemma zeroDepleted_immediate:
  assumes "startAssets p \<le> 0" and "monthlySave p = 0 \<or> 1 \<le> dly p"
    and "0 \<le> currentAge p" and "currentAge p + 1 \<le> le"
  shows "zeroDepleted p le = (11 / 12 \<le> currentAge p)"
proof -
  let ?a = "currentAge p + 1 / 12"
  have ex: "depletedAgeExact (sim p 0) = Some ?a"
    using assms(1-3) by (intro immediate_depletion_sim) simp_all
  have pos: "?a \<noteq> 0" using assms(3) by simp
  have "depletedAge (sim p 0) = Some \<lfloor>?a\<rfloor>"
    using depletedAge_of_exact [OF ex [unfolded sim_def]] pos by (simp add: sim_def)
  then have zd: "zeroDepleted p le = (\<lfloor>?a\<rfloor> \<noteq> 0 \<and> real_of_int \<lfloor>?a\<rfloor> \<le> le)"
    by (simp add: zeroDepleted_def)
  have "real_of_int \<lfloor>?a\<rfloor> \<le> ?a" by (rule of_int_floor_le)
  with assms(4) have le: "real_of_int \<lfloor>?a\<rfloor> \<le> le" by linarith
  have "0 \<le> \<lfloor>?a\<rfloor>" using assms(3) by simp
  then have "(\<lfloor>?a\<rfloor> \<noteq> 0) = (1 \<le> \<lfloor>?a\<rfloor>)" by linarith
  also have "\<dots> = (1 \<le> ?a)" by (simp add: le_floor_iff)
  also have "\<dots> = (11 / 12 \<le> currentAge p)" by (simp add: field_simps)
  finally show ?thesis using zd le by simp
qed

lemma never_lasts_immediate:
  assumes "startAssets p \<le> 0" and "monthlySave p = 0 \<or> 1 \<le> dly p"
    and "0 \<le> currentAge p" and "currentAge p + 1 \<le> le" and "0 \<le> s"
  shows "\<not> lasts p le s"
proof -
  have "depletedAgeExact (sim p s) = Some (currentAge p + 1 / 12)"
    using assms(1,2,5,3) by (rule immediate_depletion_sim)
  then show ?thesis using assms(4) by (simp add: lasts_def tol_def)
qed

lemma fss_immediate:
  assumes "startAssets p \<le> 0" and "monthlySave p = 0 \<or> 1 \<le> dly p"
    and "0 \<le> currentAge p" and "currentAge p + 1 \<le> le"
  shows "findSustainableSpend p le = Some 0"
proof (cases "zeroDepleted p le")
  case True
  then show ?thesis by (rule fss_zero)
next
  case False
  have nl: "\<forall>s. 0 \<le> s \<longrightarrow> \<not> lasts p le s"
    using never_lasts_immediate [OF assms] by blast
  then have "\<not> (lasts p le 100000 \<and> (100000::real) < 50000000)" by simp
  then have br: "bracket (lasts p le) 50000000 100000 = Some 100000"
    by (rule bracket_stop)
  have "fst (bisect (lasts p le) 34 (0, 100000)) = 0"
    using nl by (intro bisect_never) simp_all
  with fss_bisect [OF False br] show ?thesis by simp
qed

section \<open>The two-year scenario without growth\<close>

lemma find_upt_Some:
  "List.find P [a..<b] = Some m \<Longrightarrow> a \<le> m \<and> m < b \<and> P m \<and> (\<forall>j. a \<le> j \<and> j < m \<longrightarrow> \<not> P j)"
proof -
  assume "List.find P [a..<b] = Some m"
  then obtain i where i: "i < length [a..<b]" "P ([a..<b] ! i)" "m = [a..<b] ! i"
      "\<forall>j<i. \<not> P ([a..<b] ! j)"
    unfolding find_Some_iff by blast
  from i(1) have ib: "i < b - a" by simp
  then have m: "m = a + i" using i(3) by simp
  have "\<forall>j. a \<le> j \<and> j < m \<longrightarrow> \<not> P j"
  proof (intro allI impI)
    fix j assume j: "a \<le> j \<and> j < m"
    then have "j - a < i" using m by linarith
    with i(4) have "\<not> P ([a..<b] ! (j - a))" by blast
    moreover have "j - a < b - a" using \<open>j - a < i\<close> ib by linarith
    ultimately show "\<not> P j" using j by simp
  qed
  moreover have "P m" using i(2) ib m by simp
  ultimately show ?thesis using m ib by simp
qed

lemma find_upt_None:
  "List.find P [a..<b] = None \<Longrightarrow> a \<le> j \<Longrightarrow> j < b \<Longrightarrow> \<not> P j"
  by (simp add: find_None_iff)

lemma flat_consts:
  "months ((flat A)\<lparr>annualSpendToday := s\<rparr>) = 24"
  "toRet ((flat A)\<lparr>annualSpendToday := s\<rparr>) = 12"
  "dly ((flat A)\<lparr>annualSpendToday := s\<rparr>) = 0"
  "mPre ((flat A)\<lparr>annualSpendToday := s\<rparr>) = 0"
  "mPost ((flat A)\<lparr>annualSpendToday := s\<rparr>) = 0"
  "mInfl ((flat A)\<lparr>annualSpendToday := s\<rparr>) = 0"
  "mFix ((flat A)\<lparr>annualSpendToday := s\<rparr>) = 0"
  by (simp_all add: flat_def consts_defs)

lemma flat_grow:
  "grow ((flat A)\<lparr>annualSpendToday := s\<rparr>) m b = b - (if 12 < m then s / 12 else 0)"
  by (simp add: grow_def r_def c_def sp_eq flat_consts) (simp add: flat_def)

lemma flat_balAt:
  assumes "0 \<le> A" and "0 \<le> s"
  shows "balAt ((flat A)\<lparr>annualSpendToday := s\<rparr>) k = max 0 (A - real (k - 12) * (s / 12))"
proof (induction k)
  case 0
  show ?case using assms(1) by (simp add: balAt_0 flat_def)
next
  case (Suc k)
  show ?case
  proof (cases "12 < Suc k")
    case False
    then have "Suc k - 12 = 0" "k - 12 = 0" by simp_all
    with Suc False assms(1) show ?thesis
      by (simp add: balAt_Suc flat_grow)
  next
    case True
    then have "real (Suc k - 12) = real (k - 12) + 1" by (simp add: Suc_diff_le)
    moreover have "0 \<le> s / 12" using assms(2) by simp
    ultimately show ?thesis
      using Suc True by (simp add: balAt_Suc flat_grow algebra_simps max_def)
  qed
qed

lemma flat_rawBal:
  assumes "0 < A" and "0 \<le> s"
  shows "(rawBal ((flat A)\<lparr>annualSpendToday := s\<rparr>) m \<le> 0)
         = (12 < m \<and> A \<le> real (m - 12) * (s / 12))"
proof (cases "12 < m")
  case False
  then have "m - 1 - 12 = 0" by simp
  with False assms(1) show ?thesis
    using flat_balAt [of A s "m - 1"] assms by (simp add: rawBal_def flat_grow)
next
  case True
  then have "real (m - 12) = real (m - 1 - 12) + 1" by (simp add: of_nat_diff)
  moreover have "0 \<le> s / 12" using assms(2) by simp
  ultimately show ?thesis
    using True flat_balAt [of A s "m - 1"] assms
    by (simp add: rawBal_def flat_grow algebra_simps max_def)
qed

lemma flat_depleted:
  assumes "0 < A" and "0 \<le> s"
  shows "depletedAgeExact (sim (flat A) s) =
     map_option (\<lambda>m. 40 + real m / 12)
       (List.find (\<lambda>m. 12 < m \<and> A \<le> real (m - 12) * (s / 12)) [1..<25])"
proof -
  let ?q = "(flat A)\<lparr>annualSpendToday := s\<rparr>"
  have "0 \<le> currentAge ?q" by (simp add: flat_def)
  then have "depAt ?q 24 = map_option (ageAt ?q) (List.find (\<lambda>m. rawBal ?q m \<le> 0) [1..<Suc 24])"
    by (rule depAt_find)
  moreover have "ageAt ?q = (\<lambda>m. 40 + real m / 12)"
    by (simp add: ageAt_def flat_def fun_eq_iff)
  moreover have "(\<lambda>m. rawBal ?q m \<le> 0) = (\<lambda>m. 12 < m \<and> A \<le> real (m - 12) * (s / 12))"
    using flat_rawBal [OF assms] by (simp add: fun_eq_iff)
  ultimately show ?thesis
    by (simp add: sim_def simulate_fields flat_consts)
qed

lemma lasts_flat:
  assumes "0 < A" and "0 \<le> s"
  shows "lasts (flat A) 42 s = (s < 6 * A / 5)"
proof -
  let ?P = "\<lambda>m. 12 < m \<and> A \<le> real (m - 12) * (s / 12)"
  show ?thesis
  proof (cases "List.find ?P [1..<25]")
    case None
    then have "\<not> ?P 22" by (rule find_upt_None) simp_all
    then have "s < 6 * A / 5" by (simp add: field_simps)
    with None show ?thesis
      by (simp add: lasts_def flat_depleted [OF assms])
  next
    case (Some m)
    from find_upt_Some [OF Some]
    have m: "1 \<le> m" "m < 25" "12 < m" "A \<le> real (m - 12) * (s / 12)"
        "\<forall>j. 1 \<le> j \<and> j < m \<longrightarrow> \<not> ?P j"
      by blast+
    have l: "lasts (flat A) 42 s = (419 / 10 \<le> 40 + real m / 12)"
      using Some by (simp add: lasts_def tol_def flat_depleted [OF assms])
    show ?thesis
    proof (cases "s < 6 * A / 5")
      case True
      have "22 < m"
      proof (rule ccontr)
        assume "\<not> 22 < m"
        then have "real (m - 12) \<le> 10" using m(3) by simp
        then have "real (m - 12) * (s / 12) \<le> 10 * (s / 12)"
          using assms(2) by (intro mult_right_mono) simp_all
        with m(4) have "A \<le> 10 * (s / 12)" by linarith
        with True show False by (simp add: field_simps)
      qed
      then have "23 \<le> real m" by simp
      then have "419 / 10 \<le> 40 + real m / 12" by simp
      with l True show ?thesis by simp
    next
      case False
      then have "?P 22" by (simp add: field_simps)
      with m(5) have "\<not> (1 \<le> (22::nat) \<and> 22 < m)" by blast
      then have "real m \<le> 22" by simp
      then have "\<not> 419 / 10 \<le> 40 + real m / 12" by simp
      with l False show ?thesis by simp
    qed
  qed
qed

lemma flat_zero_spend: "0 < A \<Longrightarrow> depletedAgeExact (sim (flat A) 0) = None"
proof -
  assume A: "0 < A"
  have "List.find (\<lambda>m. 12 < m \<and> A \<le> real (m - 12) * (0 / 12)) [1..<25] = None"
    using A by (simp add: find_None_iff)
  then show ?thesis
    using flat_depleted [OF A, of 0] by simp
qed

lemma zeroDepleted_flat: "0 < A \<Longrightarrow> \<not> zeroDepleted (flat A) 42"
proof -
  assume A: "0 < A"
  let ?q = "(flat A)\<lparr>annualSpendToday := 0\<rparr>"
  have "depAt ?q (months ?q) = None"
    using flat_zero_spend [OF A] by (simp add: sim_def simulate_fields)
  then have "depletedAge (sim (flat A) 0) = None"
    by (simp add: sim_def simulate_fields falsy_def)
  then show ?thesis by (simp add: zeroDepleted_def)
qed

lemma bisect_flat_9:
  "bisect (lasts (flat (15 / 2)) 42) 34 (0, 100000)
     = (1207959375 / 134217728, 4831840625 / 536870912)"
  by (simp add: eval_nat_numeral lasts_flat)

lemma bracket_flat_9:
  "bracket (lasts (flat (15 / 2)) 42) 50000000 100000 = Some 100000"
  by (simp add: bracket_stop lasts_flat)

lemma round_9: "round (1207959375 / 134217728 :: real) = 9"
  by (rule round_unique) simp_all

lemma floor_8: "\<lfloor>1207959375 / 134217728 :: real\<rfloor> = 8"
  by (simp add: floor_eq_iff)

lemma fss_flat_9: "findSustainableSpend (flat (15 / 2)) 42 = Some 9"
  using fss_bisect [OF _ bracket_flat_9]
  by (simp add: zeroDepleted_flat bisect_flat_9 round_9)

section \<open>Horizons of whole years and others\<close>

lemma twelfth_root_51_50: "((51 / 50) powr (1 / 12)) ^ 12 = (51 / 50 :: real)"
  by (rule twelfth_root_power) simp

lemma prod12:
  fixes x :: real
  shows "x * (x * (x * (x * (x * (x * (x * (x * (x * (x * (x * x)))))))))) = x ^ 12"
  by (simp add: eval_nat_numeral)

lemma twelve_months_51_50:
  fixes g :: real
  assumes "g = (51 / 50) powr (1 / 12)"
  shows "g * (g * (g * (g * (g * (g * (g * (g * (g * (g * (g * g)))))))))) = 51 / 50"
  unfolding prod12 assms by (rule twelfth_root_51_50)

lemma prod12_times:
  fixes x y :: real
  shows "x * (x * (x * (x * (x * (x * (x * (x * (x * (x * (x * (x * y))))))))))) = x ^ 12 * y"
  by (simp add: eval_nat_numeral)

lemma twelve_more_months_51_50:
  fixes g y :: real
  assumes "g = (51 / 50) powr (1 / 12)"
  shows "g * (g * (g * (g * (g * (g * (g * (g * (g * (g * (g * (g * y)))))))))))
         = 51 / 50 * y"
  unfolding prod12_times assms by (simp add: twelfth_root_51_50)

lemma rowsAt_first_year: "k < 12 \<Longrightarrow> rowsAt p k = rowsAt p 0"
proof (induction k)
  case 0
  show ?case by simp
next
  case (Suc k)
  then have "Suc k mod 12 \<noteq> 0" by simp
  with Suc show ?case by (simp add: rowsAt_Suc)
qed

lemma endReal_first_year:
  "months p < 12 \<Longrightarrow> endReal (simulate p) = max 0 (startAssets p)"
  by (simp add: simulate_fields rowsAt_first_year rowsAt_0)

lemma endReal_whole_years:
  assumes "months p mod 12 = 0"
  shows "endReal (simulate p) = endNom (simulate p) / (1 + mInfl p) ^ months p"
proof -
  obtain k where k: "months p = Suc k"
    using months_pos [of p] by (cases "months p") simp_all
  with assms have "Suc k mod 12 = 0" by simp
  then have "last (rowsAt p (Suc k)) =
      \<lparr>age = \<lfloor>ageAt p (Suc k)\<rfloor>, nominal = balAt p (Suc k),
       real_bal = balAt p (Suc k) / (1 + mInfl p) ^ Suc k\<rparr>"
    by (simp add: rowsAt_Suc)
  then show ?thesis
    by (simp add: simulate_fields rowsAt_nonempty k)
qed

lemma endReal_whole_years_no_inflation:
  assumes "months p mod 12 = 0" and "inflationAnnual p = 0"
  shows "endReal (simulate p) = endNom (simulate p)"
proof -
  have "mInfl p = 0" using assms(2) by (simp add: mInfl_def)
  with endReal_whole_years [OF assms(1)] show ?thesis by simp
qed

lemma endReal_whole_years_inflation:
  assumes "months p mod 12 = 0" and "0 < inflationAnnual p"
  shows "endReal (simulate p) \<le> endNom (simulate p)"
proof -
  have "1 \<le> (1 + inflationAnnual p) powr (1 / 12)"
    using assms(2) by (intro ge_one_powr_ge_zero) simp_all
  then have "1 \<le> 1 + mInfl p" by (simp add: one_plus_mInfl)
  then have one: "1 \<le> (1 + mInfl p) ^ months p" by (rule one_le_power)
  have nn: "0 \<le> endNom (simulate p)" by (simp add: simulate_fields balAt_nonneg)
  have "endNom (simulate p) / (1 + mInfl p) ^ months p \<le> endNom (simulate p) / 1"
    using nn one by (intro divide_left_mono) simp_all
  with endReal_whole_years [OF assms(1)] show ?thesis by simp
qed

section \<open>Claim C1: the ceiling of the bracketing search\<close>

text \<open>
  Claim C1, as the code has it. The solver always returns, and its value lies between 0
  and 51,200,000. The doubling stops once \<open>hi\<close> is at least \<open>5 * 10^7\<close>, which first
  happens at \<open>100000 * 2^9 = 51,200,000\<close>, and that value (not \<open>5 * 10^7\<close>) is returned.
  It is returned exactly when the zero-spend check does not fire and \<open>lasts\<close> holds at the
  nine candidates \<open>100000 * 2^k\<close>, \<open>k = 0, \<dots>, 8\<close>, that lie below the ceiling; feasibility
  of 51,200,000 itself is not asked for. Every other result is at most 25,600,000.
\<close>

theorem findSustainableSpend_ceiling:
  "\<exists>v. findSustainableSpend p le = Some v \<and> 0 \<le> v \<and> v \<le> 51200000
       \<and> (v = 51200000 \<longleftrightarrow>
            \<not> zeroDepleted p le \<and> (\<forall>k\<le>8. lasts p le (100000 * 2 ^ k)))
       \<and> (v \<noteq> 51200000 \<longrightarrow> v \<le> 25600000)"
proof (cases "zeroDepleted p le")
  case True
  then have "findSustainableSpend p le = Some 0" by (rule fss_zero)
  with True show ?thesis by simp
next
  case False
  obtain j where j: "j \<le> 9" "bracket (lasts p le) 50000000 100000 = Some (100000 * 2 ^ j)"
      "\<forall>i<j. lasts p le (100000 * 2 ^ i)" "j < 9 \<longrightarrow> \<not> lasts p le (100000 * 2 ^ j)"
    using bracket_start [of "lasts p le"] by blast
  show ?thesis
  proof (cases "j = 9")
    case True
    have hi: "(100000::real) * 2 ^ j = 51200000" unfolding True by simp
    have "findSustainableSpend p le = Some 51200000"
      using fss_ceiling [OF False j(2) [unfolded hi]] by simp
    moreover have "\<forall>k\<le>8. lasts p le (100000 * 2 ^ k)"
      using j(3) True by simp
    ultimately show ?thesis using False by simp
  next
    case nine: False
    with j(1) have j8: "j \<le> 8" by simp
    then have small: "(100000::real) * 2 ^ j \<le> 25600000"
      using pow2_le_256 [of j] by simp
    from j8 j(4) have nf: "\<not> lasts p le (100000 * 2 ^ j)" by simp
    have pos: "(0::real) < 100000 * 2 ^ j" by simp
    from small have lt: "(100000::real) * 2 ^ j < 50000000" by simp
    obtain lo' hi' :: real
      where b: "findSustainableSpend p le = Some (real_of_int (round lo'))"
        "0 \<le> lo'" "lo' < hi'" "hi' \<le> 100000 * 2 ^ j"
      using fss_below [OF False j(2) pos lt nf] by blast
    from b(3,4) have "lo' \<le> real_of_int (100000 * 2 ^ j)" by simp
    with b(2) have rb: "0 \<le> real_of_int (round lo')"
        "real_of_int (round lo') \<le> real_of_int (100000 * 2 ^ j)"
      using round_between [of lo' "100000 * 2 ^ j"] by blast+
    from rb(2) small have le: "real_of_int (round lo') \<le> 25600000" by simp
    have "\<not> (\<forall>k\<le>8. lasts p le (100000 * 2 ^ k))"
      using nf j8 by blast
    with b(1) rb(1) le show ?thesis by simp
  qed
qed

text \<open>The theorem at the two-year scenario with 50,000,000, where every candidate lasts.\<close>

theorem findSustainableSpend_ceiling_witness:
  "\<not> zeroDepleted (flat 50000000) 42
   \<and> lasts (flat 50000000) 42 25600000
   \<and> findSustainableSpend (flat 50000000) 42 = Some 51200000"
proof -
  have nz: "\<not> zeroDepleted (flat 50000000) 42"
    by (simp add: zeroDepleted_flat)
  have all: "\<forall>k\<le>8. lasts (flat 50000000) 42 (100000 * 2 ^ k)"
  proof (intro allI impI)
    fix k :: nat assume "k \<le> 8"
    then have "(2::real) ^ k \<le> 256" by (rule pow2_le_256)
    then show "lasts (flat 50000000) 42 (100000 * 2 ^ k)"
      by (simp add: lasts_flat)
  qed
  from findSustainableSpend_ceiling [of "flat 50000000" 42] nz all
  have "findSustainableSpend (flat 50000000) 42 = Some 51200000" by auto
  with nz show ?thesis by (simp add: lasts_flat)
qed

text \<open>
  In the two-year scenario with 25,000,000 a spend lasts exactly when it is below
  30,000,000: the candidate 25,600,000 lasts, the next one, 51,200,000, does not, and
  51,200,000 is the value returned. It is above \<open>5 * 10^7\<close> and it is not feasible.
\<close>

theorem ceiling_overshoot_counterexample:
  "findSustainableSpend (flat 25000000) 42 = Some 51200000
   \<and> lasts (flat 25000000) 42 25600000
   \<and> \<not> lasts (flat 25000000) 42 51200000"
proof -
  have br: "bracket (lasts (flat 25000000) 42) 50000000 100000 = Some 51200000"
    by (simp add: bracket_go bracket_stop lasts_flat)
  have "\<not> zeroDepleted (flat 25000000) 42"
    by (simp add: zeroDepleted_flat)
  from fss_ceiling [OF this br] show ?thesis
    by (simp add: lasts_flat)
qed

section \<open>Claim C2: what the solver returns\<close>

text \<open>
  Claim C2, as the code has it. The solver returns 0 whenever the zero-spend check fires
  (the zero-spend run has a non-zero \<^verbatim>\<open>depletedAge\<close> that is at most the life expectancy).
  Otherwise it returns either 51,200,000, when the doubling reached the ceiling (then
  25,600,000 lasts), or the nearest integer to a lower bound \<open>lo \<ge> 0\<close> that is 0 or
  satisfies \<open>lasts\<close>, with an infeasible spend less than \<open>25600000 / 2^34\<close> above it. The
  rounded value itself need not satisfy \<open>lasts\<close>, and it is 0 whenever \<open>lo < 1/2\<close>.
\<close>

theorem findSustainableSpend_result:
  "\<exists>v. findSustainableSpend p le = Some v
       \<and> (zeroDepleted p le \<longrightarrow> v = 0)
       \<and> (\<not> zeroDepleted p le \<longrightarrow>
            (v = 51200000 \<and> lasts p le 25600000)
            \<or> (\<exists>lo hi. v = real_of_int (round lo) \<and> 0 \<le> lo
                  \<and> (lo = 0 \<or> lasts p le lo)
                  \<and> \<not> lasts p le hi \<and> lo < hi \<and> hi - lo \<le> 25600000 / 2 ^ 34))"
proof (cases "zeroDepleted p le")
  case True
  then have "findSustainableSpend p le = Some 0" by (rule fss_zero)
  with True show ?thesis by simp
next
  case False
  obtain j where j: "j \<le> 9" "bracket (lasts p le) 50000000 100000 = Some (100000 * 2 ^ j)"
      "\<forall>i<j. lasts p le (100000 * 2 ^ i)" "j < 9 \<longrightarrow> \<not> lasts p le (100000 * 2 ^ j)"
    using bracket_start [of "lasts p le"] by blast
  show ?thesis
  proof (cases "j = 9")
    case True
    have hi: "(100000::real) * 2 ^ j = 51200000" unfolding True by simp
    have "findSustainableSpend p le = Some 51200000"
      using fss_ceiling [OF False j(2) [unfolded hi]] by simp
    moreover have "lasts p le (100000 * 2 ^ 8)"
    proof -
      have "8 < j" unfolding True by simp
      with j(3) show ?thesis by blast
    qed
    then have "lasts p le 25600000" by simp
    ultimately show ?thesis using False by simp
  next
    case nine: False
    with j(1) have j8: "j \<le> 8" by simp
    then have small: "(100000::real) * 2 ^ j \<le> 25600000"
      using pow2_le_256 [of j] by simp
    from j8 j(4) have nf: "\<not> lasts p le (100000 * 2 ^ j)" by simp
    have pos: "(0::real) < 100000 * 2 ^ j" by simp
    from small have lt: "(100000::real) * 2 ^ j < 50000000" by simp
    obtain lo' hi' :: real
      where b: "findSustainableSpend p le = Some (real_of_int (round lo'))"
        "\<not> lasts p le hi'" "lo' = 0 \<or> lasts p le lo'"
        "0 \<le> lo'" "lo' < hi'" "hi' - lo' = 100000 * 2 ^ j / 2 ^ 34"
      using fss_below [OF False j(2) pos lt nf] by blast
    have "(100000::real) * 2 ^ j / 2 ^ 34 \<le> 25600000 / 2 ^ 34"
      using small by (simp only: divide_le_cancel) simp
    with b(6) have "hi' - lo' \<le> 25600000 / 2 ^ 34" by simp
    with b(1-5) False show ?thesis by blast
  qed
qed

text \<open>The theorem at the two-year scenario with 17.50, where the bisection branch is taken.\<close>

theorem findSustainableSpend_result_witness:
  "\<not> zeroDepleted (flat (35 / 2)) 42
   \<and> \<not> lasts (flat (35 / 2)) 42 25600000
   \<and> (\<exists>lo. findSustainableSpend (flat (35 / 2)) 42 = Some (real_of_int (round lo))
          \<and> (lo = 0 \<or> lasts (flat (35 / 2)) 42 lo))"
proof -
  have nz: "\<not> zeroDepleted (flat (35 / 2)) 42"
    by (simp add: zeroDepleted_flat)
  have nl: "\<not> lasts (flat (35 / 2)) 42 25600000"
    by (simp add: lasts_flat)
  from findSustainableSpend_result [of "flat (35 / 2)" 42] nz nl
  have "\<exists>lo. findSustainableSpend (flat (35 / 2)) 42 = Some (real_of_int (round lo))
          \<and> (lo = 0 \<or> lasts (flat (35 / 2)) 42 lo)"
    by auto
  with nz nl show ?thesis by blast
qed

text \<open>
  In the two-year scenario with 7.50 the zero-spend run never depletes and a spend
  lasts exactly when it is below 9. The bisection ends just below 9, the result is rounded
  up to 9, and 9 does not last.
\<close>

theorem rounded_result_not_feasible_counterexample:
  "depletedAgeExact (sim (flat (15 / 2)) 0) = None
   \<and> findSustainableSpend (flat (15 / 2)) 42 = Some 9
   \<and> \<not> lasts (flat (15 / 2)) 42 9"
  using fss_flat_9 by (simp add: lasts_flat flat_zero_spend)

section \<open>Claim C3: thirty-four bisections, then rounding\<close>

text \<open>
  Claim C3, as the code has it. When the zero-spend check does not fire and the doubling
  stops at \<open>hi\<close> below the ceiling, \<open>hi\<close> is infeasible and the solver runs the bisection
  34 times from \<open>(0, hi)\<close>. The upper bound stays infeasible, the lower bound is 0 or
  feasible, the interval has length \<open>hi / 2^34\<close> at the end, and the result is
  \<^verbatim>\<open>Math.round\<close> of the final lower bound: the nearest integer, not the floor.
\<close>

theorem bisect_34_then_round:
  assumes "\<not> zeroDepleted p le"
    and "bracket (lasts p le) 50000000 100000 = Some hi"
    and "hi < 50000000"
  shows "\<exists>lo' hi'. bisect (lasts p le) 34 (0, hi) = (lo', hi')
          \<and> findSustainableSpend p le = Some (real_of_int (round lo'))
          \<and> \<not> lasts p le hi \<and> \<not> lasts p le hi' \<and> (lo' = 0 \<or> lasts p le lo')
          \<and> 0 \<le> lo' \<and> lo' < hi' \<and> hi' \<le> hi \<and> hi' - lo' = hi / 2 ^ 34"
proof -
  obtain j where j: "j \<le> 9" "bracket (lasts p le) 50000000 100000 = Some (100000 * 2 ^ j)"
      "j < 9 \<longrightarrow> \<not> lasts p le (100000 * 2 ^ j)"
    using bracket_start [of "lasts p le"] by blast
  from j(2) assms(2) have hi: "hi = 100000 * 2 ^ j" by simp
  have "j \<noteq> 9"
  proof
    assume "j = 9"
    then have "hi = 51200000" unfolding hi by simp
    with assms(3) show False by simp
  qed
  with j(1,3) have nf: "\<not> lasts p le hi" unfolding hi by simp
  have pos: "0 < hi" unfolding hi by simp
  from fss_below [OF assms(1,2) pos assms(3) nf] nf show ?thesis by blast
qed

text \<open>The theorem at the two-year scenario with 7.50, where the doubling stops at 100,000.\<close>

theorem bisect_34_then_round_witness:
  "\<not> zeroDepleted (flat (15 / 2)) 42
   \<and> bracket (lasts (flat (15 / 2)) 42) 50000000 100000 = Some 100000
   \<and> (100000::real) < 50000000
   \<and> (\<exists>lo' hi'. bisect (lasts (flat (15 / 2)) 42) 34 (0, 100000) = (lo', hi')
         \<and> findSustainableSpend (flat (15 / 2)) 42 = Some (real_of_int (round lo'))
         \<and> \<not> lasts (flat (15 / 2)) 42 hi' \<and> hi' - lo' = 100000 / 2 ^ 34)"
proof -
  have nz: "\<not> zeroDepleted (flat (15 / 2)) 42"
    by (simp add: zeroDepleted_flat)
  have lt: "(100000::real) < 50000000" by simp
  from bisect_34_then_round [OF nz bracket_flat_9 lt] nz bracket_flat_9
  show ?thesis by auto
qed

text \<open>
  In the same scenario the final lower bound lies between 8 and 9 (its floor is 8), and
  the solver returns 9.
\<close>

theorem round_not_floor_counterexample:
  "bracket (lasts (flat (15 / 2)) 42) 50000000 100000 = Some 100000
   \<and> findSustainableSpend (flat (15 / 2)) 42 = Some 9
   \<and> \<lfloor>fst (bisect (lasts (flat (15 / 2)) 42) 34 (0, 100000))\<rfloor> = 8"
  using fss_flat_9 bracket_flat_9 by (simp add: bisect_flat_9 floor_8)

section \<open>Claim C4: the final real balance is the last row's\<close>



section \<open>Claims C5 and C6: the final real balance between two anniversaries\<close>

text \<open>
  \<^verbatim>\<open>endReal\<close> is read from the last row of \<^verbatim>\<open>rows\<close>, which is as old as the last
  completed year; \<^verbatim>\<open>endNom\<close> is the balance after the last month.
\<close>

text \<open>
  Claim C5 says that with no inflation \<^verbatim>\<open>endReal\<close> and \<^verbatim>\<open>endNom\<close> agree within
  \<open>10^-6\<close>, also when the month count is not a multiple of 12. At \<open>midYear\<close> (30 months,
  no inflation, no growth, 100 saved in each of the first 12 months and 100 spent in each
  month after) \<^verbatim>\<open>endReal\<close> is the balance after month 24, 1000, and \<^verbatim>\<open>endNom\<close> the
  balance after month 30, 400. The property holds when the month
  count is a multiple of 12 (\<open>endReal_whole_years_no_inflation\<close>).
\<close>

theorem endReal_zero_inflation_stale:
  "inflationAnnual midYear = 0
   \<and> months midYear = 30
   \<and> endNom (simulate midYear) = 400
   \<and> endReal (simulate midYear) = 1000
   \<and> \<not> \<bar>endReal (simulate midYear) - endNom (simulate midYear)\<bar> < 1 / 10 ^ 6"
  by (simp add: midYear_def loop_defs consts_defs)

text \<open>
  Claim C6 says that under positive inflation \<^verbatim>\<open>endReal\<close> is at most \<^verbatim>\<open>endNom\<close>. At
  \<open>feeOnly\<close> (30 months, 2% inflation, a flat fee of 100 a month, no net growth)
  \<^verbatim>\<open>endReal\<close> is the deflated balance after month 24, \<open>7600 / 1.02^2\<close>, and
  \<^verbatim>\<open>endNom\<close> the balance after month 30, 7000. The property holds when the month count is a
  multiple of 12 (\<open>endReal_whole_years_inflation\<close>).
\<close>

theorem endReal_above_endNom_with_inflation:
  "0 < inflationAnnual feeOnly
   \<and> months feeOnly = 30
   \<and> endNom (simulate feeOnly) = 7000
   \<and> endReal (simulate feeOnly) = 19000000 / 2601
   \<and> \<not> endReal (simulate feeOnly) \<le> endNom (simulate feeOnly)"
  by (simp add: feeOnly_def loop_defs consts_defs twelve_months_51_50 [OF refl]
      twelve_more_months_51_50 [OF refl])

section \<open>Claim C7: the balance is never negative, depletion is the first crossing\<close>

text \<open>
  Claim C7. After every monthly pass the balance is the maximum of 0 and the value line 125
  computed, so the running balance, both balances of every row of \<^verbatim>\<open>rows\<close> (the
  starting row included), \<^verbatim>\<open>endNom\<close> and \<^verbatim>\<open>endReal\<close> are at least 0. The depletion age
  is the age of the first month whose computed balance is at most 0, and \<^verbatim>\<open>null\<close> when
  there is none; the loop goes on after it, so a row is still recorded for every completed
  year. The inputs are those of the data model: a current age of at least 0 (so that no
  month has age 0, which \<^verbatim>\<open>!dep\<close> would take for "not yet depleted") and inflation above
  \<open>-100%\<close> (so that the deflator is a positive number).
\<close>

theorem simulate_balance_never_negative:
  assumes "- 1 < inflationAnnual p" and "0 \<le> currentAge p"
  shows "(\<forall>k. balAt p (Suc k) = max 0 (rawBal p (Suc k)) \<and> 0 \<le> balAt p k)
       \<and> (\<forall>rw \<in> set (rows (simulate p)). 0 \<le> nominal rw \<and> 0 \<le> real_bal rw)
       \<and> 0 \<le> endNom (simulate p) \<and> 0 \<le> endReal (simulate p)
       \<and> depletedAgeExact (simulate p) =
           map_option (ageAt p) (List.find (\<lambda>m. rawBal p m \<le> 0) [1..<Suc (months p)])
       \<and> length (rows (simulate p)) = Suc (months p div 12)"
proof -
  have bal: "\<forall>k. balAt p (Suc k) = max 0 (rawBal p (Suc k)) \<and> 0 \<le> balAt p k"
    by (simp add: balAt_Suc rawBal_def balAt_nonneg)
  have rws: "\<forall>rw \<in> set (rows (simulate p)). 0 \<le> nominal rw \<and> 0 \<le> real_bal rw"
    using rowsAt_rows_nonneg by (simp add: simulate_fields)
  have nom: "0 \<le> endNom (simulate p)"
    by (simp add: simulate_fields balAt_nonneg)
  have "last (rows (simulate p)) \<in> set (rows (simulate p))"
    by (simp add: simulate_fields rowsAt_nonempty)
  with rws have rl: "0 \<le> endReal (simulate p)"
    unfolding endReal_last by blast
  have dep: "depletedAgeExact (simulate p) =
      map_option (ageAt p) (List.find (\<lambda>m. rawBal p m \<le> 0) [1..<Suc (months p)])"
    using depAt_find [OF assms(2)] by (simp add: simulate_fields)
  have len: "length (rows (simulate p)) = Suc (months p div 12)"
    by (simp add: simulate_fields length_rowsAt)
  from bal rws nom rl dep len show ?thesis by blast
qed

text \<open>The theorem at \<open>withSpend\<close>: 600 months, 51 rows.\<close>

theorem simulate_balance_never_negative_witness:
  "- 1 < inflationAnnual withSpend \<and> 0 \<le> currentAge withSpend
   \<and> 0 \<le> endNom (simulate withSpend) \<and> 0 \<le> endReal (simulate withSpend)
   \<and> length (rows (simulate withSpend)) = 51"
proof -
  have h1: "- 1 < inflationAnnual withSpend" by (simp add: withSpend_def)
  have h2: "0 \<le> currentAge withSpend" by (simp add: withSpend_def)
  have m: "months withSpend = 600" by (simp add: withSpend_def months_def)
  from simulate_balance_never_negative [OF h1 h2] h1 h2 show ?thesis
    by (simp add: m)
qed

section \<open>Claim C8: net annual rates and geometric monthly rates\<close>

text \<open>
  Claim C8. The pre-retirement net annual rate is \<open>max (-0.99) (preAnnualGross - feeAnnualPre)\<close>;
  the post-retirement real rate is first made nominal, \<open>(1 + real) * (1 + inflation) - 1\<close>,
  and then reduced by \<open>feeAnnualPost\<close> under the same floor. The rate applied in month
  \<open>m\<close> and the monthly inflation are the geometric conversions
  \<open>(1 + annual) powr (1 / 12) - 1\<close>: twelve months compound to exactly the annual rate,
  and the monthly rate is strictly below \<open>annual / 12\<close> whenever the annual rate is not 0.
\<close>

theorem simulate_rates_geometric:
  "preNet p = max (- 0.99) (preAnnualGross p - feeAnnualPre p)
   \<and> postNet p = max (- 0.99)
        ((1 + postRealAnnualGross p) * (1 + inflationAnnual p) - 1 - feeAnnualPost p)
   \<and> r p m = (if m \<le> toRet p then (1 + preNet p) powr (1 / 12) - 1
              else (1 + postNet p) powr (1 / 12) - 1)
   \<and> mInfl p = (1 + inflationAnnual p) powr (1 / 12) - 1
   \<and> (1 + mPre p) ^ 12 = 1 + preNet p
   \<and> (1 + mPost p) ^ 12 = 1 + postNet p
   \<and> (- 1 < inflationAnnual p \<longrightarrow> (1 + mInfl p) ^ 12 = 1 + inflationAnnual p)
   \<and> (preNet p \<noteq> 0 \<longrightarrow> mPre p < preNet p / 12)
   \<and> (postNet p \<noteq> 0 \<longrightarrow> mPost p < postNet p / 12)"
proof -
  have pre: "preNet p \<noteq> 0 \<longrightarrow> mPre p < preNet p / 12"
  proof
    assume "preNet p \<noteq> 0"
    moreover have "0 \<le> 1 + mPre p" by (simp add: mPre_def)
    ultimately show "mPre p < preNet p / 12"
      using preNet_gt one_plus_mPre by (intro monthly_below_simple)
  qed
  have post: "postNet p \<noteq> 0 \<longrightarrow> mPost p < postNet p / 12"
  proof
    assume "postNet p \<noteq> 0"
    moreover have "0 \<le> 1 + mPost p" by (simp add: mPost_def)
    ultimately show "mPost p < postNet p / 12"
      using postNet_gt one_plus_mPost by (intro monthly_below_simple)
  qed
  have r1: "r p m = (if m \<le> toRet p then (1 + preNet p) powr (1 / 12) - 1
              else (1 + postNet p) powr (1 / 12) - 1)"
    by (simp add: r_def mPre_def mPost_def)
  have "postNet p = max (- 0.99)
        ((1 + postRealAnnualGross p) * (1 + inflationAnnual p) - 1 - feeAnnualPost p)"
    by (simp add: postNet_def postNominal_def)
  with pre post r1 show ?thesis
    using one_plus_mPre [of p] one_plus_mPost [of p] one_plus_mInfl12 [of p]
    by (simp add: preNet_def mInfl_def)
qed

text \<open>The theorem at \<open>withSpend\<close>: net rates 7.8% and 4.35%, inflation 2%.\<close>

theorem simulate_rates_geometric_witness:
  "- 1 < inflationAnnual withSpend \<and> preNet withSpend = 39 / 500
   \<and> postNet withSpend = 87 / 2000
   \<and> (1 + mInfl withSpend) ^ 12 = 1 + inflationAnnual withSpend
   \<and> mPre withSpend < preNet withSpend / 12
   \<and> mPost withSpend < postNet withSpend / 12"
proof -
  have h1: "- 1 < inflationAnnual withSpend" by (simp add: withSpend_def)
  have h2: "preNet withSpend = 39 / 500"
    by (simp add: withSpend_def preNet_def)
  have h3: "postNet withSpend = 87 / 2000"
    by (simp add: withSpend_def postNet_def postNominal_def)
  have n2: "preNet withSpend \<noteq> 0" and n3: "postNet withSpend \<noteq> 0"
    unfolding h2 h3 by simp_all
  note g = simulate_rates_geometric [of withSpend 1]
  from g h1 have c1: "(1 + mInfl withSpend) ^ 12 = 1 + inflationAnnual withSpend"
    by blast
  from g n2 have c2: "mPre withSpend < preNet withSpend / 12"
    by blast
  from g n3 have c3: "mPost withSpend < postNet withSpend / 12"
    by blast
  from h1 h2 h3 c1 c2 c3 show ?thesis
    by blast
qed

section \<open>Claim C9: the withdrawal counts months since retirement\<close>

text \<open>
  Claim C9. In month \<open>m\<close> nothing is withdrawn while \<open>m \<le> toRet\<close>; after that the
  withdrawal is \<open>annualSpendToday / 12\<close> times \<open>(1 + mInfl)\<close> to the power \<open>m - toRet\<close>,
  the number of months since retirement began, where \<open>1 + mInfl\<close> is the twelfth root of
  \<open>1 + inflationAnnual\<close>. That amount is what line 125 subtracts from the balance.
\<close>

theorem withdrawal_since_retirement:
  "(m \<le> toRet p \<longrightarrow> sp p m = 0)
   \<and> (toRet p < m \<longrightarrow>
        sp p m = annualSpendToday p / 12 * (1 + mInfl p) ^ (m - toRet p))
   \<and> 1 + mInfl p = (1 + inflationAnnual p) powr (1 / 12)
   \<and> rawBal p (Suc k) = balAt p k * (1 + r p (Suc k)) + c p (Suc k) - sp p (Suc k) - mFix p
   \<and> balAt p (Suc k) = max 0 (rawBal p (Suc k))"
  by (simp add: sp_eq one_plus_mInfl rawBal_def grow_def balAt_Suc)

text \<open>The theorem at \<open>withSpend\<close>, whose retirement starts after month 240.\<close>

theorem withdrawal_since_retirement_witness:
  "toRet withSpend = 240 \<and> sp withSpend 240 = 0
   \<and> sp withSpend 250 = 5000 * (1 + mInfl withSpend) ^ 10"
proof -
  have t: "toRet withSpend = 240" by (simp add: withSpend_def toRet_def)
  have a: "annualSpendToday withSpend = 60000" by (simp add: withSpend_def)
  from withdrawal_since_retirement [of 240 withSpend 0]
    withdrawal_since_retirement [of 250 withSpend 0] t a
  show ?thesis by simp
qed

section \<open>Claim C10: no assets and no first contribution\<close>

text \<open>
  With no starting assets and no contribution in month 1 (\<open>monthlySave = 0\<close>, or a delay
  of at least one month), the balance after month 1 is 0 and the depletion age is
  \<open>currentAge + 1/12\<close>, whatever happens later; for a current age of at least 0 and a life
  expectancy at least a year ahead the solver returns 0.
\<close>

lemma zero_assets_immediately_depleted:
  assumes "startAssets p = 0" and "monthlySave p = 0 \<or> 1 \<le> dly p"
    and "0 \<le> annualSpendToday p" and "0 \<le> currentAge p" and "currentAge p + 1 \<le> le"
  shows "balAt p 1 = 0
       \<and> depletedAgeExact (simulate p) = Some (currentAge p + 1 / 12)
       \<and> findSustainableSpend p le = Some 0"
proof -
  have s0: "startAssets p \<le> 0" using assms(1) by simp
  have "c p 1 \<le> 0" using assms(2) by (auto simp: c_def)
  moreover have "0 \<le> sp p 1" using assms(3) by (rule sp_nonneg)
  moreover have "balAt p 0 = 0" using assms(1) by (simp add: balAt_0)
  ultimately have "grow p (Suc 0) (balAt p 0) \<le> 0"
    using mFix_nonneg [of p] by (simp add: grow_def)
  then have "balAt p 1 = 0" using balAt_Suc [of p 0] by simp
  then show ?thesis
    using immediate_depletion [OF s0 assms(2,3,4)] fss_immediate [OF s0 assms(2,4,5)]
    by simp
qed

text \<open>From the age of one year on, the zero-spend check of line 351 is what returns the 0.\<close>

lemma zero_check_fires_from_age_one:
  assumes "startAssets p = 0" and "monthlySave p = 0 \<or> 1 \<le> dly p"
    and "1 \<le> currentAge p" and "currentAge p + 1 \<le> le"
  shows "zeroDepleted p le"
proof -
  have "startAssets p \<le> 0" using assms(1) by simp
  moreover have "0 \<le> currentAge p" using assms(3) by simp
  ultimately have "zeroDepleted p le = (11 / 12 \<le> currentAge p)"
    using assms(2,4) by (intro zeroDepleted_immediate)
  with assms(3) show ?thesis by simp
qed


end
